theory Spec2Isabelle
  imports Complex_Main
begin

section \<open>The Ginzburg-Landau simulation: field state, solver, defect injector, hue mapping\<close>

text \<open>
  The embedding follows class \<open>GinzburgLandauSimulation\<close> of \<open>src/main.ts\<close>.

  Numbers. The TypeScript code computes in IEEE doubles and stores the field in
  \<open>Float32Array\<close>s. Here a JavaScript number is a \<^typ>\<open>real\<close> and every operation is
  exact: rounding, overflow, NaN and the sign of zero are not part of the model. The one
  exception is \<open>imprintSingleVortex_f32\<close> below, the injector with the rounding of its
  stores into the \<open>Float32Array\<close>s written out, for the claim that this rounding decides.
  The grid sizes are natural numbers (they are results of \<open>Math.ceil\<close> on a non-negative
  quotient).

  Arrays. A typed array is a \<^typ>\<open>real list\<close>. A write \<open>a[i] = e\<close> is \<open>a[i := e]\<close>: a
  typed array ignores a write beyond its length, and so does \<^const>\<open>list_update\<close>. A read
  \<open>a[i]\<close> is \<open>a ! i\<close>; the theorems below read only below the length of the array (a read
  beyond it would be \<open>undefined\<close> in JavaScript). The four arrays are four record fields,
  so that no two of them alias, as in the source, where they are allocated separately and
  only ever swapped.

  Randomness. \<open>Math.random()\<close> is a parameter \<open>rnd\<close>: \<open>rnd k\<close> is the result of the
  \<open>k\<close>-th call made by the operation (counted from 0).
\<close>

record sim =
  gridSizeX :: nat
  gridSizeY :: nat
  u :: "real list"
  v :: "real list"
  uNext :: "real list"
  vNext :: "real list"
  diffusion :: real
  dt :: real
  noiseLevel :: real

subsection \<open>Arithmetic of the host language\<close>

text \<open>\<open>Math.trunc\<close>, and the remainder \<open>a % b\<close>, whose sign is that of the dividend.\<close>

definition js_trunc :: "real \<Rightarrow> int" where
  "js_trunc r = (if 0 \<le> r then \<lfloor>r\<rfloor> else \<lceil>r\<rceil>)"

definition js_rem :: "real \<Rightarrow> real \<Rightarrow> real" where
  "js_rem a b = a - b * of_int (js_trunc (a / b))"

text \<open>
  \<open>Math.atan2(y, x)\<close> on reals. Without a signed zero the result lies in \<open>(-\<pi>, \<pi>]\<close>,
  and \<open>atan2 0 0 = 0\<close> as \<open>Math.atan2(0, 0)\<close>.
\<close>

definition atan2 :: "real \<Rightarrow> real \<Rightarrow> real" where
  "atan2 y x =
     (if 0 < x then arctan (y / x)
      else if x < 0 then (if 0 \<le> y then arctan (y / x) + pi else arctan (y / x) - pi)
      else if 0 < y then pi / 2
      else if y < 0 then - (pi / 2)
      else 0)"

subsection \<open>The two nested loops over the grid\<close>

text \<open>
  \<open>for (let y = 0; y < h; y++) for (let x = 0; x < w; x++) body\<close>, threading the arrays
  that the body writes.
\<close>

definition for_grid :: "nat \<Rightarrow> nat \<Rightarrow> (nat \<Rightarrow> nat \<Rightarrow> 'a \<Rightarrow> 'a) \<Rightarrow> 'a \<Rightarrow> 'a" where
  "for_grid w h body = fold (\<lambda>y. fold (\<lambda>x. body x y) [0..<w]) [0..<h]"

subsection \<open>Allocation and seeding\<close>

text \<open>
  \<open>initializeGrid\<close>: each cell draws an angle and a magnitude, in this order.
\<close>

definition seed_cell :: "(nat \<Rightarrow> real) \<Rightarrow> nat \<Rightarrow> real list \<times> real list \<Rightarrow> real list \<times> real list" where
  "seed_cell rnd i = (\<lambda>(U, V).
     (let angle = rnd (2 * i) * 2 * pi;
          mag = 0.1 + rnd (2 * i + 1) * 0.1
      in (U[i := mag * cos angle], V[i := mag * sin angle])))"

definition initializeGrid :: "(nat \<Rightarrow> real) \<Rightarrow> sim \<Rightarrow> sim" where
  "initializeGrid rnd s =
     (let (U, V) = fold (seed_cell rnd) [0..<length (u s)] (u s, v s)
      in s\<lparr>u := U, v := V\<rparr>)"

text \<open>
  \<open>setupCanvas\<close>, the part that concerns the field. The container is \<open>None\<close> when
  \<open>document.getElementById\<close> finds nothing (the function returns at once), and otherwise
  its \<open>clientWidth\<close> and \<open>clientHeight\<close>. \<open>new Float32Array(n)\<close> is \<open>n\<close> zeros.
\<close>

definition setupCanvas :: "(nat \<times> nat) option \<Rightarrow> real \<Rightarrow> (nat \<Rightarrow> real) \<Rightarrow> sim \<Rightarrow> sim" where
  "setupCanvas container targetCellSize rnd s =
     (case container of
        None \<Rightarrow> s
      | Some (clientWidth, clientHeight) \<Rightarrow>
          (let safeCellSize = max 2 targetCellSize;
               gx = nat \<lceil>real clientWidth / safeCellSize\<rceil>;
               gy = nat \<lceil>real clientHeight / safeCellSize\<rceil>;
               totalCells = gx * gy
           in initializeGrid rnd
                (s\<lparr>gridSizeX := gx, gridSizeY := gy,
                   u := replicate totalCells 0, v := replicate totalCells 0,
                   uNext := replicate totalCells 0, vNext := replicate totalCells 0\<rparr>)))"

subsection \<open>The defect injector\<close>

text \<open>
  The shortest displacement on one axis: \<open>let d = x - x1; if (d > w / 2) d -= w;
  if (d < -w / 2) d += w\<close>.
\<close>

definition torus_delta :: "nat \<Rightarrow> nat \<Rightarrow> real \<Rightarrow> real" where
  "torus_delta w x x1 =
     (let d = real x - x1;
          d = (if d > real w / 2 then d - real w else d);
          d = (if d < - real w / 2 then d + real w else d)
      in d)"

definition dist_of :: "real \<Rightarrow> real \<Rightarrow> real" where
  "dist_of dx1 dy1 = sqrt (dx1 * dx1 + dy1 * dy1)"

definition softProfile :: "real \<Rightarrow> real" where
  "softProfile dist1 = (let coreProfile = min 1.0 (dist1 / 4.0) in 0.2 + 0.8 * tanh coreProfile)"

definition imprint_cell ::
  "nat \<Rightarrow> nat \<Rightarrow> real \<Rightarrow> real \<Rightarrow> real \<Rightarrow> nat \<Rightarrow> nat \<Rightarrow> real list \<times> real list \<Rightarrow> real list \<times> real list" where
  "imprint_cell w h x1 y1 winding x y = (\<lambda>(U, V).
     (let idx = y * w + x;
          u0 = U ! idx;
          v0 = V ! idx;
          dx1 = torus_delta w x x1;
          dy1 = torus_delta h y y1;
          ang1 = atan2 dy1 dx1;
          deltaPhase = ang1 * winding;
          sp = softProfile (dist_of dx1 dy1);
          cosP = cos deltaPhase;
          sinP = sin deltaPhase;
          uNew = u0 * cosP - v0 * sinP;
          vNew = u0 * sinP + v0 * cosP
      in (U[idx := uNew * sp], V[idx := vNew * sp])))"

text \<open>
  Names for what one pass of the injector computes at cell \<open>(x, y)\<close>: the wrapped centre
  coordinate, the rotation angle and the magnitude factor.
\<close>

definition centre :: "nat \<Rightarrow> real \<Rightarrow> real" where
  "centre w cx = js_rem (cx + real w) (real w)"

definition deltaPhase_at :: "nat \<Rightarrow> nat \<Rightarrow> real \<Rightarrow> real \<Rightarrow> real \<Rightarrow> nat \<Rightarrow> nat \<Rightarrow> real" where
  "deltaPhase_at w h x1 y1 winding x y = atan2 (torus_delta h y y1) (torus_delta w x x1) * winding"

definition profile_at :: "nat \<Rightarrow> nat \<Rightarrow> real \<Rightarrow> real \<Rightarrow> nat \<Rightarrow> nat \<Rightarrow> real" where
  "profile_at w h x1 y1 x y = softProfile (dist_of (torus_delta w x x1) (torus_delta h y y1))"

definition imprintSingleVortex :: "real \<Rightarrow> real \<Rightarrow> real \<Rightarrow> sim \<Rightarrow> sim" where
  "imprintSingleVortex cx cy winding s =
     (let w = gridSizeX s;
          h = gridSizeY s;
          x1 = js_rem (cx + real w) (real w);
          y1 = js_rem (cy + real h) (real h);
          (U, V) = for_grid w h (imprint_cell w h x1 y1 winding) (u s, v s)
      in s\<lparr>u := U, v := V\<rparr>)"

subsection \<open>The injector with the stores rounded to single precision\<close>

text \<open>
  \<open>this.u\<close> and \<open>this.v\<close> are \<open>Float32Array\<close>s: the assignments
  \<open>this.u[idx] = uNew * softProfile\<close> and \<open>this.v[idx] = vNew * softProfile\<close> round the
  product to the nearest single-precision number, ties to even (what \<open>Math.fround\<close>
  computes). \<open>fround\<close> is that rounding on reals: 24 significant bits, the exponent not
  below \<open>-126\<close> (the subnormal numbers), and no overflow to infinity, which the model does
  not have. \<open>imprint_cell_f32\<close> and \<open>imprintSingleVortex_f32\<close> are \<open>imprint_cell\<close> and
  \<open>imprintSingleVortex\<close> with this rounding at the two stores; the arithmetic before the
  store stays exact. They are used where the rounding of the store decides a claim.
\<close>

definition round_even :: "real \<Rightarrow> int" where
  "round_even r =
     (let f = \<lfloor>r\<rfloor>; d = r - of_int f
      in if d < 1 / 2 then f else if 1 / 2 < d then f + 1 else if even f then f else f + 1)"

definition fround :: "real \<Rightarrow> real" where
  "fround x =
     (if x = 0 then 0
      else (let e = max (- 126) \<lfloor>log 2 \<bar>x\<bar>\<rfloor>;
                q = 2 powr (of_int e - 23)
            in q * of_int (round_even (x / q))))"

definition imprint_cell_f32 ::
  "nat \<Rightarrow> nat \<Rightarrow> real \<Rightarrow> real \<Rightarrow> real \<Rightarrow> nat \<Rightarrow> nat \<Rightarrow> real list \<times> real list \<Rightarrow> real list \<times> real list" where
  "imprint_cell_f32 w h x1 y1 winding x y = (\<lambda>(U, V).
     (let idx = y * w + x;
          u0 = U ! idx;
          v0 = V ! idx;
          dx1 = torus_delta w x x1;
          dy1 = torus_delta h y y1;
          ang1 = atan2 dy1 dx1;
          deltaPhase = ang1 * winding;
          sp = softProfile (dist_of dx1 dy1);
          cosP = cos deltaPhase;
          sinP = sin deltaPhase;
          uNew = u0 * cosP - v0 * sinP;
          vNew = u0 * sinP + v0 * cosP
      in (U[idx := fround (uNew * sp)], V[idx := fround (vNew * sp)])))"

definition imprintSingleVortex_f32 :: "real \<Rightarrow> real \<Rightarrow> real \<Rightarrow> sim \<Rightarrow> sim" where
  "imprintSingleVortex_f32 cx cy winding s =
     (let w = gridSizeX s;
          h = gridSizeY s;
          x1 = js_rem (cx + real w) (real w);
          y1 = js_rem (cy + real h) (real h);
          (U, V) = for_grid w h (imprint_cell_f32 w h x1 y1 winding) (u s, v s)
      in s\<lparr>u := U, v := V\<rparr>)"

subsection \<open>The solver\<close>

text \<open>
  The noise pass, run only when \<open>noiseLevel > 0\<close>: two draws for each cell.
\<close>

definition noise_cell :: "(nat \<Rightarrow> real) \<Rightarrow> real \<Rightarrow> nat \<Rightarrow> real list \<times> real list \<Rightarrow> real list \<times> real list" where
  "noise_cell rnd noiseScale i = (\<lambda>(U, V).
     (U[i := U ! i + (rnd (2 * i) - 0.5) * noiseScale],
      V[i := V ! i + (rnd (2 * i + 1) - 0.5) * noiseScale]))"

text \<open>
  The neighbour indices. In the loop \<open>x < w\<close> and \<open>y < h\<close>, so \<open>x - 1 + w\<close> and
  \<open>y - 1 + h\<close> are not negative and \<open>%\<close> is \<open>mod\<close> on natural numbers; the sum is
  written \<open>x + w - 1\<close> to stay in the natural numbers.
\<close>

definition left_idx :: "nat \<Rightarrow> nat \<Rightarrow> nat \<Rightarrow> nat" where
  "left_idx w x y = y * w + ((x + w - 1) mod w)"

definition right_idx :: "nat \<Rightarrow> nat \<Rightarrow> nat \<Rightarrow> nat" where
  "right_idx w x y = y * w + ((x + 1) mod w)"

definition up_idx :: "nat \<Rightarrow> nat \<Rightarrow> nat \<Rightarrow> nat \<Rightarrow> nat" where
  "up_idx w h x y = ((y + h - 1) mod h) * w + x"

definition down_idx :: "nat \<Rightarrow> nat \<Rightarrow> nat \<Rightarrow> nat \<Rightarrow> nat" where
  "down_idx w h x y = ((y + 1) mod h) * w + x"

text \<open>The values the loop body stores at cell \<open>(x, y)\<close>, read from the current arrays.\<close>

definition euler_cell ::
  "nat \<Rightarrow> nat \<Rightarrow> real \<Rightarrow> real \<Rightarrow> real list \<Rightarrow> real list \<Rightarrow> nat \<Rightarrow> nat \<Rightarrow> real \<times> real" where
  "euler_cell w h D tau U V x y =
     (let i = y * w + x;
          u0 = U ! i;
          v0 = V ! i;
          left = U ! left_idx w x y;
          right = U ! right_idx w x y;
          up = U ! up_idx w h x y;
          down = U ! down_idx w h x y;
          laplacianU = left + right + up + down - 4 * u0;
          leftV = V ! left_idx w x y;
          rightV = V ! right_idx w x y;
          upV = V ! up_idx w h x y;
          downV = V ! down_idx w h x y;
          laplacianV = leftV + rightV + upV + downV - 4 * v0;
          magSq = u0 * u0 + v0 * v0;
          reaction = 1 - magSq
      in (u0 + tau * (D * laplacianU + u0 * reaction),
          v0 + tau * (D * laplacianV + v0 * reaction)))"

definition solver_cell ::
  "nat \<Rightarrow> nat \<Rightarrow> real \<Rightarrow> real \<Rightarrow> real list \<Rightarrow> real list \<Rightarrow> nat \<Rightarrow> nat \<Rightarrow> real list \<times> real list \<Rightarrow> real list \<times> real list" where
  "solver_cell w h D tau U V x y = (\<lambda>(NU, NV).
     (NU[y * w + x := fst (euler_cell w h D tau U V x y)],
      NV[y * w + x := snd (euler_cell w h D tau U V x y)]))"

text \<open>
  \<open>updatePhysics\<close>: the noise pass on the current arrays, the solver loop from the
  current arrays into the next ones, and the exchange of the two pairs.
\<close>

definition perturbed :: "(nat \<Rightarrow> real) \<Rightarrow> sim \<Rightarrow> real list \<times> real list" where
  "perturbed rnd s =
     (let size = gridSizeX s * gridSizeY s
      in if noiseLevel s > 0
         then (let noiseScale = noiseLevel s * 0.1
               in fold (noise_cell rnd noiseScale) [0..<size] (u s, v s))
         else (u s, v s))"

definition updatePhysics :: "(nat \<Rightarrow> real) \<Rightarrow> sim \<Rightarrow> sim" where
  "updatePhysics rnd s =
     (let w = gridSizeX s;
          h = gridSizeY s;
          (U, V) = perturbed rnd s;
          (NU, NV) = for_grid w h (solver_cell w h (diffusion s) (dt s) U V) (uNext s, vNext s)
      in s\<lparr>u := NU, uNext := U, v := NV, vNext := V\<rparr>)"

subsection \<open>What the renderer reads off a cell\<close>

text \<open>
  From the loop of \<open>draw\<close>: the magnitude and the phase of cell \<open>i\<close>, and the hue computed
  from the phase, \<open>(angle * 180 / Math.PI + 360) % 360\<close>.
\<close>

definition mag_at :: "sim \<Rightarrow> nat \<Rightarrow> real" where
  "mag_at s i = (let magSq = u s ! i * u s ! i + v s ! i * v s ! i in sqrt magSq)"

definition angle_at :: "sim \<Rightarrow> nat \<Rightarrow> real" where
  "angle_at s i = atan2 (v s ! i) (u s ! i)"

definition hue_of_angle :: "real \<Rightarrow> real" where
  "hue_of_angle angle = js_rem (angle * 180 / pi + 360) 360"

definition hue_at :: "sim \<Rightarrow> nat \<Rightarrow> real" where
  "hue_at s i = hue_of_angle (angle_at s i)"

subsection \<open>The shape invariant, and fields used as concrete inputs\<close>

text \<open>
  The invariant of the data model: the four arrays have one cell for each grid position.
\<close>

definition shape_ok :: "sim \<Rightarrow> bool" where
  "shape_ok s \<longleftrightarrow>
     length (u s) = gridSizeX s * gridSizeY s \<and> length (v s) = gridSizeX s * gridSizeY s \<and>
     length (uNext s) = gridSizeX s * gridSizeY s \<and> length (vNext s) = gridSizeX s * gridSizeY s"

text \<open>
  A grid of \<open>w\<close> by \<open>h\<close> cells, all holding \<open>a + i b\<close>, with the parameters the class
  starts with (\<open>diffusion = 0.5\<close>, \<open>dt = 0.2\<close>, \<open>noiseLevel = 0\<close>).
\<close>

definition uniform_field :: "nat \<Rightarrow> nat \<Rightarrow> real \<Rightarrow> real \<Rightarrow> sim" where
  "uniform_field w h a b =
     \<lparr>gridSizeX = w, gridSizeY = h,
      u = replicate (w * h) a, v = replicate (w * h) b,
      uNext = replicate (w * h) 0, vNext = replicate (w * h) 0,
      diffusion = 0.5, dt = 0.2, noiseLevel = 0\<rparr>"

text \<open>The same grid, zero everywhere except cell \<open>i0\<close>, which holds \<open>a + i b\<close>.\<close>

definition single_cell_field :: "nat \<Rightarrow> nat \<Rightarrow> nat \<Rightarrow> real \<Rightarrow> real \<Rightarrow> sim" where
  "single_cell_field w h i0 a b =
     \<lparr>gridSizeX = w, gridSizeY = h,
      u = (replicate (w * h) 0)[i0 := a], v = (replicate (w * h) 0)[i0 := b],
      uNext = replicate (w * h) 0, vNext = replicate (w * h) 0,
      diffusion = 0.5, dt = 0.2, noiseLevel = 0\<rparr>"

subsection \<open>The solver's equation, as the specification writes it\<close>

text \<open>
  The field as complex numbers, \<open>psi = re + i im\<close> at cell \<open>(x, y)\<close> with index
  \<open>y * width + x\<close>; an integer coordinate wrapped onto \<open>0 \<dots> n - 1\<close>; the four-neighbour
  Laplacian with wrapped coordinates; and the explicit Euler step
  \<open>psi + dt * (D * Laplacian psi + psi * (1 - |psi|\<^sup>2))\<close>.
\<close>

definition psi :: "sim \<Rightarrow> nat \<Rightarrow> nat \<Rightarrow> complex" where
  "psi s x y = Complex (u s ! (y * gridSizeX s + x)) (v s ! (y * gridSizeX s + x))"

definition wrap :: "nat \<Rightarrow> int \<Rightarrow> nat" where
  "wrap n k = nat (k mod int n)"

definition Laplacian :: "sim \<Rightarrow> nat \<Rightarrow> nat \<Rightarrow> complex" where
  "Laplacian s x y =
     psi s (wrap (gridSizeX s) (int x - 1)) y + psi s (wrap (gridSizeX s) (int x + 1)) y
     + psi s x (wrap (gridSizeY s) (int y - 1)) + psi s x (wrap (gridSizeY s) (int y + 1))
     - 4 * psi s x y"

definition psi_next :: "sim \<Rightarrow> nat \<Rightarrow> nat \<Rightarrow> complex" where
  "psi_next s x y =
     psi s x y + of_real (dt s) *
       (of_real (diffusion s) * Laplacian s x y + psi s x y * of_real (1 - (cmod (psi s x y))\<^sup>2))"

subsection \<open>Sequences of calls\<close>

text \<open>
  The frame loop and the pointer handlers call \<open>updatePhysics\<close> and
  \<open>imprintSingleVortex\<close> one after the other, in any order; a \<open>Step\<close> carries the random
  numbers its noise pass would draw.
\<close>

datatype call = Step "nat \<Rightarrow> real" | Imprint real real real

fun perform :: "call \<Rightarrow> sim \<Rightarrow> sim" where
  "perform (Step rnd) s = updatePhysics rnd s"
| "perform (Imprint cx cy winding) s = imprintSingleVortex cx cy winding s"

definition run :: "call list \<Rightarrow> sim \<Rightarrow> sim" where
  "run calls s = fold perform calls s"

section \<open>The loops, cell by cell\<close>

text \<open>
  A loop body that stores at index \<open>y * w + x\<close> of both arrays a value computed from what
  the arrays hold there touches each cell once; so after the loops a cell holds what its own
  iteration stored.
\<close>

lemma row_loop:
  assumes body: "\<And>x A B. body x (A, B) =
      (A[y * w + x := fa x (A ! (y * w + x)) (B ! (y * w + x))],
       B[y * w + x := fb x (A ! (y * w + x)) (B ! (y * w + x))])"
  shows "length (fst (fold body [0..<n] (A, B))) = length A \<and>
         length (snd (fold body [0..<n] (A, B))) = length B \<and>
         (\<forall>j. j < length A \<longrightarrow> j < length B \<longrightarrow>
            fst (fold body [0..<n] (A, B)) ! j =
              (if y * w \<le> j \<and> j < y * w + n then fa (j - y * w) (A ! j) (B ! j) else A ! j) \<and>
            snd (fold body [0..<n] (A, B)) ! j =
              (if y * w \<le> j \<and> j < y * w + n then fb (j - y * w) (A ! j) (B ! j) else B ! j))"
proof (induction n)
  case 0
  show ?case by auto
next
  case (Suc n)
  obtain A' B' where st: "fold body [0..<n] (A, B) = (A', B')"
    by (cases "fold body [0..<n] (A, B)")
  from Suc st have len: "length A' = length A" "length B' = length B"
    and cells: "\<And>j. j < length A \<Longrightarrow> j < length B \<Longrightarrow>
        A' ! j = (if y * w \<le> j \<and> j < y * w + n then fa (j - y * w) (A ! j) (B ! j) else A ! j) \<and>
        B' ! j = (if y * w \<le> j \<and> j < y * w + n then fb (j - y * w) (A ! j) (B ! j) else B ! j)"
    by simp_all
  have step: "fold body [0..<Suc n] (A, B) = body n (A', B')"
    by (simp add: st)
  have "fst (body n (A', B')) ! j =
          (if y * w \<le> j \<and> j < y * w + Suc n then fa (j - y * w) (A ! j) (B ! j) else A ! j) \<and>
        snd (body n (A', B')) ! j =
          (if y * w \<le> j \<and> j < y * w + Suc n then fb (j - y * w) (A ! j) (B ! j) else B ! j)"
    if j: "j < length A" "j < length B" for j
  proof (cases "j = y * w + n")
    case True
    with j len cells [of j] show ?thesis by (simp add: body)
  next
    case False
    with j len cells [of j] show ?thesis by (auto simp: body)
  qed
  moreover have "length (fst (body n (A', B'))) = length A" "length (snd (body n (A', B'))) = length B"
    using len by (simp_all add: body)
  ultimately show ?case
    unfolding step by blast
qed


lemma grid_loop:
  assumes body: "\<And>x y A B. body x y (A, B) =
      (A[y * w + x := fa x y (A ! (y * w + x)) (B ! (y * w + x))],
       B[y * w + x := fb x y (A ! (y * w + x)) (B ! (y * w + x))])"
  shows "length (fst (for_grid w m body (A, B))) = length A \<and>
         length (snd (for_grid w m body (A, B))) = length B \<and>
         (\<forall>j. j < length A \<longrightarrow> j < length B \<longrightarrow>
            fst (for_grid w m body (A, B)) ! j =
              (if j < m * w then fa (j mod w) (j div w) (A ! j) (B ! j) else A ! j) \<and>
            snd (for_grid w m body (A, B)) ! j =
              (if j < m * w then fb (j mod w) (j div w) (A ! j) (B ! j) else B ! j))"
proof (induction m)
  case 0
  show ?case by (simp add: for_grid_def)
next
  case (Suc m)
  obtain A' B' where st: "for_grid w m body (A, B) = (A', B')"
    by (cases "for_grid w m body (A, B)")
  from Suc st have len: "length A' = length A" "length B' = length B"
    and cells: "\<And>j. j < length A \<Longrightarrow> j < length B \<Longrightarrow>
        A' ! j = (if j < m * w then fa (j mod w) (j div w) (A ! j) (B ! j) else A ! j) \<and>
        B' ! j = (if j < m * w then fb (j mod w) (j div w) (A ! j) (B ! j) else B ! j)"
    by simp_all
  have step: "for_grid w (Suc m) body (A, B) = fold (\<lambda>x. body x m) [0..<w] (A', B')"
    using st by (simp add: for_grid_def)
  note row = row_loop [where body = "\<lambda>x. body x m" and y = m and w = w and n = w
      and fa = "\<lambda>x. fa x m" and fb = "\<lambda>x. fb x m" and A = A' and B = B', OF body]
  have "fst (fold (\<lambda>x. body x m) [0..<w] (A', B')) ! j =
          (if j < Suc m * w then fa (j mod w) (j div w) (A ! j) (B ! j) else A ! j) \<and>
        snd (fold (\<lambda>x. body x m) [0..<w] (A', B')) ! j =
          (if j < Suc m * w then fb (j mod w) (j div w) (A ! j) (B ! j) else B ! j)"
    if j: "j < length A" "j < length B" for j
  proof (cases "m * w \<le> j \<and> j < m * w + w")
    case True
    then have "0 < w" by (cases w) auto
    from True have d: "j div w = m"
      by (intro div_nat_eqI) (simp_all add: mult.commute)
    have "j mod w = j - j div w * w"
      by (simp add: minus_div_mult_eq_mod)
    with d have dm: "j mod w = j - m * w" by simp
    from True have lt: "j < Suc m * w" "\<not> j < m * w" by simp_all
    from j len have j': "j < length A'" "j < length B'" by simp_all
    from row [THEN conjunct2, THEN conjunct2, rule_format, OF j'] True have
      "fst (fold (\<lambda>x. body x m) [0..<w] (A', B')) ! j = fa (j - m * w) m (A' ! j) (B' ! j)"
      "snd (fold (\<lambda>x. body x m) [0..<w] (A', B')) ! j = fb (j - m * w) m (A' ! j) (B' ! j)"
      by auto
    moreover from cells [OF j] lt have "A' ! j = A ! j" "B' ! j = B ! j" by simp_all
    ultimately show ?thesis
      using lt by (simp add: d dm)
  next
    case False
    from j len have j': "j < length A'" "j < length B'" by simp_all
    from row [THEN conjunct2, THEN conjunct2, rule_format, OF j'] False have
      "fst (fold (\<lambda>x. body x m) [0..<w] (A', B')) ! j = A' ! j"
      "snd (fold (\<lambda>x. body x m) [0..<w] (A', B')) ! j = B' ! j"
      by auto
    moreover from False have "j < Suc m * w \<longleftrightarrow> j < m * w" by auto
    ultimately show ?thesis
      using cells [OF j] by simp
  qed
  moreover have "length (fst (fold (\<lambda>x. body x m) [0..<w] (A', B'))) = length A"
    "length (snd (fold (\<lambda>x. body x m) [0..<w] (A', B'))) = length B"
    using len row by simp_all
  ultimately show ?case
    unfolding step by blast
qed


lemma cell_index:
  fixes x y w h :: nat
  assumes "x < w" "y < h"
  shows "y * w + x < h * w" "(y * w + x) mod w = x" "(y * w + x) div w = y"
proof -
  from assms have "y * w + x < y * w + w" by simp
  also have "\<dots> = Suc y * w" by simp
  also from assms have "\<dots> \<le> h * w" by (intro mult_le_mono1) simp
  finally show "y * w + x < h * w" .
  from assms show "(y * w + x) mod w = x" "(y * w + x) div w = y" by simp_all
qed

lemma imprint_cell_form:
  "imprint_cell w h x1 y1 winding x y (A, B) =
     (A[y * w + x := (A ! (y * w + x) * cos (deltaPhase_at w h x1 y1 winding x y)
                      - B ! (y * w + x) * sin (deltaPhase_at w h x1 y1 winding x y))
                     * profile_at w h x1 y1 x y],
      B[y * w + x := (A ! (y * w + x) * sin (deltaPhase_at w h x1 y1 winding x y)
                      + B ! (y * w + x) * cos (deltaPhase_at w h x1 y1 winding x y))
                     * profile_at w h x1 y1 x y])"
  by (simp add: imprint_cell_def deltaPhase_at_def profile_at_def Let_def)

lemma imprint_fields:
  "gridSizeX (imprintSingleVortex cx cy winding s) = gridSizeX s"
  "gridSizeY (imprintSingleVortex cx cy winding s) = gridSizeY s"
  "uNext (imprintSingleVortex cx cy winding s) = uNext s"
  "vNext (imprintSingleVortex cx cy winding s) = vNext s"
  "diffusion (imprintSingleVortex cx cy winding s) = diffusion s"
  "dt (imprintSingleVortex cx cy winding s) = dt s"
  "noiseLevel (imprintSingleVortex cx cy winding s) = noiseLevel s"
  by (simp_all add: imprintSingleVortex_def Let_def split: prod.split)

lemma imprint_arrays:
  "u (imprintSingleVortex cx cy winding s) =
     fst (for_grid (gridSizeX s) (gridSizeY s)
       (imprint_cell (gridSizeX s) (gridSizeY s) (centre (gridSizeX s) cx) (centre (gridSizeY s) cy) winding)
       (u s, v s))"
  "v (imprintSingleVortex cx cy winding s) =
     snd (for_grid (gridSizeX s) (gridSizeY s)
       (imprint_cell (gridSizeX s) (gridSizeY s) (centre (gridSizeX s) cx) (centre (gridSizeY s) cy) winding)
       (u s, v s))"
  by (simp_all add: imprintSingleVortex_def centre_def Let_def split: prod.split)

lemma imprint_length:
  "length (u (imprintSingleVortex cx cy winding s)) = length (u s)"
  "length (v (imprintSingleVortex cx cy winding s)) = length (v s)"
  unfolding imprint_arrays
  using grid_loop [where body = "imprint_cell (gridSizeX s) (gridSizeY s)
        (centre (gridSizeX s) cx) (centre (gridSizeY s) cy) winding"
      and w = "gridSizeX s" and m = "gridSizeY s" and A = "u s" and B = "v s",
      OF imprint_cell_form]
  by blast+

lemma imprint_cells:
  fixes cx cy winding :: real
  assumes len: "length (u s) = gridSizeX s * gridSizeY s" "length (v s) = gridSizeX s * gridSizeY s"
    and xy: "x < gridSizeX s" "y < gridSizeY s"
  defines "i \<equiv> y * gridSizeX s + x"
  defines "d \<equiv> deltaPhase_at (gridSizeX s) (gridSizeY s)
      (centre (gridSizeX s) cx) (centre (gridSizeY s) cy) winding x y"
  defines "p \<equiv> profile_at (gridSizeX s) (gridSizeY s)
      (centre (gridSizeX s) cx) (centre (gridSizeY s) cy) x y"
  shows "u (imprintSingleVortex cx cy winding s) ! i = (u s ! i * cos d - v s ! i * sin d) * p"
    and "v (imprintSingleVortex cx cy winding s) ! i = (u s ! i * sin d + v s ! i * cos d) * p"
proof -
  note idx = cell_index [OF xy]
  from idx(1) len have i: "i < length (u s)" "i < length (v s)"
    by (simp_all add: i_def mult.commute)
  note g = grid_loop [where body = "imprint_cell (gridSizeX s) (gridSizeY s)
        (centre (gridSizeX s) cx) (centre (gridSizeY s) cy) winding"
      and w = "gridSizeX s" and m = "gridSizeY s" and A = "u s" and B = "v s",
      OF imprint_cell_form, THEN conjunct2, THEN conjunct2, rule_format, OF i]
  from g [THEN conjunct1] idx
  show "u (imprintSingleVortex cx cy winding s) ! i = (u s ! i * cos d - v s ! i * sin d) * p"
    unfolding imprint_arrays by (simp add: i_def d_def p_def)
  from g [THEN conjunct2] idx
  show "v (imprintSingleVortex cx cy winding s) ! i = (u s ! i * sin d + v s ! i * cos d) * p"
    unfolding imprint_arrays by (simp add: i_def d_def p_def)
qed


lemma noise_fold_length:
  "length (fst (fold (noise_cell rnd c) is (A, B))) = length A \<and>
   length (snd (fold (noise_cell rnd c) is (A, B))) = length B"
  by (induction "is" arbitrary: A B) (simp_all add: noise_cell_def)

lemma perturbed_length:
  "length (fst (perturbed rnd s)) = length (u s)"
  "length (snd (perturbed rnd s)) = length (v s)"
  by (simp_all add: perturbed_def Let_def noise_fold_length)

lemma perturbed_quiet:
  "noiseLevel s \<le> 0 \<Longrightarrow> perturbed rnd s = (u s, v s)"
  by (simp add: perturbed_def Let_def)

lemma solver_cell_form:
  "solver_cell w h D tau U V x y (A, B) =
     (A[y * w + x := (\<lambda>x y a b. fst (euler_cell w h D tau U V x y)) x y (A ! (y * w + x)) (B ! (y * w + x))],
      B[y * w + x := (\<lambda>x y a b. snd (euler_cell w h D tau U V x y)) x y (A ! (y * w + x)) (B ! (y * w + x))])"
  by (simp add: solver_cell_def)

lemma update_fields:
  "gridSizeX (updatePhysics rnd s) = gridSizeX s"
  "gridSizeY (updatePhysics rnd s) = gridSizeY s"
  "uNext (updatePhysics rnd s) = fst (perturbed rnd s)"
  "vNext (updatePhysics rnd s) = snd (perturbed rnd s)"
  "diffusion (updatePhysics rnd s) = diffusion s"
  "dt (updatePhysics rnd s) = dt s"
  "noiseLevel (updatePhysics rnd s) = noiseLevel s"
  by (simp_all add: updatePhysics_def Let_def split: prod.split)

lemma update_arrays:
  "u (updatePhysics rnd s) =
     fst (for_grid (gridSizeX s) (gridSizeY s)
       (solver_cell (gridSizeX s) (gridSizeY s) (diffusion s) (dt s)
          (fst (perturbed rnd s)) (snd (perturbed rnd s)))
       (uNext s, vNext s))"
  "v (updatePhysics rnd s) =
     snd (for_grid (gridSizeX s) (gridSizeY s)
       (solver_cell (gridSizeX s) (gridSizeY s) (diffusion s) (dt s)
          (fst (perturbed rnd s)) (snd (perturbed rnd s)))
       (uNext s, vNext s))"
  by (simp_all add: updatePhysics_def Let_def split: prod.split)

lemma update_length:
  "length (u (updatePhysics rnd s)) = length (uNext s)"
  "length (v (updatePhysics rnd s)) = length (vNext s)"
  unfolding update_arrays
  using grid_loop [where body = "solver_cell (gridSizeX s) (gridSizeY s) (diffusion s) (dt s)
          (fst (perturbed rnd s)) (snd (perturbed rnd s))"
      and w = "gridSizeX s" and m = "gridSizeY s" and A = "uNext s" and B = "vNext s",
      OF solver_cell_form]
  by blast+

lemma update_cells:
  assumes len: "length (uNext s) = gridSizeX s * gridSizeY s"
      "length (vNext s) = gridSizeX s * gridSizeY s"
    and xy: "x < gridSizeX s" "y < gridSizeY s"
  shows "u (updatePhysics rnd s) ! (y * gridSizeX s + x) =
           fst (euler_cell (gridSizeX s) (gridSizeY s) (diffusion s) (dt s)
                  (fst (perturbed rnd s)) (snd (perturbed rnd s)) x y)"
    and "v (updatePhysics rnd s) ! (y * gridSizeX s + x) =
           snd (euler_cell (gridSizeX s) (gridSizeY s) (diffusion s) (dt s)
                  (fst (perturbed rnd s)) (snd (perturbed rnd s)) x y)"
proof -
  note idx = cell_index [OF xy]
  from idx(1) len have i: "y * gridSizeX s + x < length (uNext s)"
      "y * gridSizeX s + x < length (vNext s)"
    by (simp_all add: mult.commute)
  note g = grid_loop [where body = "solver_cell (gridSizeX s) (gridSizeY s) (diffusion s) (dt s)
          (fst (perturbed rnd s)) (snd (perturbed rnd s))"
      and w = "gridSizeX s" and m = "gridSizeY s" and A = "uNext s" and B = "vNext s",
      OF solver_cell_form, THEN conjunct2, THEN conjunct2, rule_format, OF i]
  from g [THEN conjunct1] idx
  show "u (updatePhysics rnd s) ! (y * gridSizeX s + x) =
           fst (euler_cell (gridSizeX s) (gridSizeY s) (diffusion s) (dt s)
                  (fst (perturbed rnd s)) (snd (perturbed rnd s)) x y)"
    unfolding update_arrays by simp
  from g [THEN conjunct2] idx
  show "v (updatePhysics rnd s) ! (y * gridSizeX s + x) =
           snd (euler_cell (gridSizeX s) (gridSizeY s) (diffusion s) (dt s)
                  (fst (perturbed rnd s)) (snd (perturbed rnd s)) x y)"
    unfolding update_arrays by simp
qed

lemma neighbours_in_range:
  fixes x y w h :: nat
  assumes "x < w" "y < h"
  shows "left_idx w x y < w * h" "right_idx w x y < w * h"
    "up_idx w h x y < w * h" "down_idx w h x y < w * h"
proof -
  from assms have w: "0 < w" and h: "0 < h" by auto
  have "(x + w - 1) mod w < w" "(x + 1) mod w < w" using w by simp_all
  from cell_index(1) [OF this(1) assms(2)] cell_index(1) [OF this(2) assms(2)]
  show "left_idx w x y < w * h" "right_idx w x y < w * h"
    by (simp_all add: left_idx_def right_idx_def mult.commute)
  have "(y + h - 1) mod h < h" "(y + 1) mod h < h" using h by simp_all
  from cell_index(1) [OF assms(1) this(1)] cell_index(1) [OF assms(1) this(2)]
  show "up_idx w h x y < w * h" "down_idx w h x y < w * h"
    by (simp_all add: up_idx_def down_idx_def mult.commute)
qed

section \<open>The solver\<close>

lemma wrap_pred: "x < n \<Longrightarrow> wrap n (int x - 1) = (x + n - 1) mod n"
proof (cases x)
  case 0
  assume "x < n"
  with 0 have "(- 1) mod int n = int n - 1"
    by (simp add: zmod_minus1)
  with 0 \<open>x < n\<close> show ?thesis by (simp add: wrap_def)
next
  case (Suc k)
  assume "x < n"
  with Suc have "(int x - 1) mod int n = int k" by simp
  moreover from Suc \<open>x < n\<close> have "(x + n - 1) mod n = k" by simp
  ultimately show ?thesis by (simp add: wrap_def)
qed

lemma wrap_succ: "wrap n (int x + 1) = (x + 1) mod n"
proof -
  have "int x + 1 = int (x + 1)" by simp
  then show ?thesis
    unfolding wrap_def by (simp only: flip: zmod_int)
qed

text \<open>
  Claim C1. For a field whose four arrays have \<open>width * height\<close> cells and with
  \<open>noiseLevel = 0\<close>, one call of \<open>updatePhysics\<close> leaves at every cell \<open>(x, y)\<close> of the
  new current arrays the value \<open>psi + dt * (diffusion * Laplacian psi + psi * (1 - |psi|\<^sup>2))\<close>
  computed from the old ones, real and imaginary part alike, the Laplacian being
  left + right + up + down - 4 * centre with the neighbour coordinates wrapped modulo the
  width and the height; the old current arrays become the next ones.
\<close>

theorem C1_step_is_euler_update:
  assumes "shape_ok s" "noiseLevel s = 0" "x < gridSizeX s" "y < gridSizeY s"
  shows "psi (updatePhysics rnd s) x y = psi_next s x y \<and>
         uNext (updatePhysics rnd s) = u s \<and> vNext (updatePhysics rnd s) = v s"
proof -
  from assms(1) have len: "length (uNext s) = gridSizeX s * gridSizeY s"
      "length (vNext s) = gridSizeX s * gridSizeY s"
    by (simp_all add: shape_ok_def)
  from assms(2) have q: "perturbed rnd s = (u s, v s)" by (simp add: perturbed_quiet)
  note c = update_cells [OF len assms(3,4), of rnd, unfolded q fst_conv snd_conv]
  have m: "(cmod (psi s x y))\<^sup>2 =
      u s ! (y * gridSizeX s + x) * u s ! (y * gridSizeX s + x)
      + v s ! (y * gridSizeX s + x) * v s ! (y * gridSizeX s + x)"
    unfolding cmod_power2 by (simp add: psi_def power2_eq_square)
  have re: "Re (psi_next s x y) =
      fst (euler_cell (gridSizeX s) (gridSizeY s) (diffusion s) (dt s) (u s) (v s) x y)"
    unfolding psi_next_def m using assms(3,4)
    by (simp add: Laplacian_def psi_def euler_cell_def Let_def
        wrap_pred wrap_succ left_idx_def right_idx_def up_idx_def down_idx_def)
  have im: "Im (psi_next s x y) =
      snd (euler_cell (gridSizeX s) (gridSizeY s) (diffusion s) (dt s) (u s) (v s) x y)"
    unfolding psi_next_def m using assms(3,4)
    by (simp add: Laplacian_def psi_def euler_cell_def Let_def
        wrap_pred wrap_succ left_idx_def right_idx_def up_idx_def down_idx_def)
  have "psi (updatePhysics rnd s) x y = psi_next s x y"
    by (rule complex_eqI) (simp_all add: re im, simp_all add: psi_def update_fields c)
  then show ?thesis
    by (simp add: update_fields q)
qed

theorem C1_step_is_euler_update_witness:
  "shape_ok (single_cell_field 4 4 0 1 2) \<and> noiseLevel (single_cell_field 4 4 0 1 2) = 0 \<and>
   3 < gridSizeX (single_cell_field 4 4 0 1 2) \<and> 0 < gridSizeY (single_cell_field 4 4 0 1 2) \<and>
   psi (updatePhysics (\<lambda>k. 0) (single_cell_field 4 4 0 1 2)) 3 0 = psi_next (single_cell_field 4 4 0 1 2) 3 0 \<and>
   uNext (updatePhysics (\<lambda>k. 0) (single_cell_field 4 4 0 1 2)) = u (single_cell_field 4 4 0 1 2) \<and>
   vNext (updatePhysics (\<lambda>k. 0) (single_cell_field 4 4 0 1 2)) = v (single_cell_field 4 4 0 1 2)"
  using C1_step_is_euler_update [of "single_cell_field 4 4 0 1 2" 3 0 "\<lambda>k. 0"]
  by (simp add: shape_ok_def single_cell_field_def)

lemma euler_uniform:
  assumes "x < w" "y < h" "a * a + b * b = 1"
  shows "euler_cell w h D tau (replicate (w * h) a) (replicate (w * h) b) x y = (a, b)"
proof -
  from cell_index(1) [OF assms(1,2)] have "y * w + x < w * h" by (simp add: mult.commute)
  with neighbours_in_range [OF assms(1,2)] assms(3) show ?thesis
    by (simp add: euler_cell_def Let_def)
qed

lemma update_uniform:
  assumes "a * a + b * b = 1"
  shows "u (updatePhysics rnd (uniform_field w h a b)) = replicate (w * h) a"
    and "v (updatePhysics rnd (uniform_field w h a b)) = replicate (w * h) b"
proof -
  let ?s = "uniform_field w h a b"
  have f: "gridSizeX ?s = w" "gridSizeY ?s = h" "u ?s = replicate (w * h) a"
    "v ?s = replicate (w * h) b" "length (uNext ?s) = w * h" "length (vNext ?s) = w * h"
    "perturbed rnd ?s = (u ?s, v ?s)"
    by (simp_all add: uniform_field_def perturbed_def)
  have cell: "u (updatePhysics rnd ?s) ! i = a \<and> v (updatePhysics rnd ?s) ! i = b"
    if "i < w * h" for i
  proof -
    from that have "0 < w" by (cases w) auto
    then have x: "i mod w < w" by simp
    from that have y: "i div w < h" by (simp add: less_mult_imp_div_less mult.commute)
    have i: "i div w * w + i mod w = i" by simp
    from update_cells [of ?s "i mod w" "i div w" rnd] x y euler_uniform [OF x y assms]
    show ?thesis by (simp add: f i)
  qed
  show "u (updatePhysics rnd ?s) = replicate (w * h) a"
    by (rule nth_equalityI) (simp_all add: update_length f cell)
  show "v (updatePhysics rnd ?s) = replicate (w * h) b"
    by (rule nth_equalityI) (simp_all add: update_length f cell)
qed

lemma single_cell_nth:
  assumes "j < w * h"
  shows "u (single_cell_field w h i0 a b) ! j = (if j = i0 then a else 0)"
    and "v (single_cell_field w h i0 a b) ! j = (if j = i0 then b else 0)"
  using assms by (auto simp: single_cell_field_def nth_list_update)

lemma spread:
  assumes xy: "x < w" "y < h"
    and off: "y * w + x \<noteq> i0"
    and nb: "i0 = left_idx w x y \<or> i0 = right_idx w x y \<or> i0 = up_idx w h x y \<or> i0 = down_idx w h x y"
    and ab: "a \<noteq> 0 \<or> b \<noteq> 0"
  shows "psi (updatePhysics rnd (single_cell_field w h i0 a b)) x y \<noteq> 0"
proof -
  let ?s = "single_cell_field w h i0 a b"
  define k :: real where "k = of_bool (left_idx w x y = i0) + of_bool (right_idx w x y = i0)
      + of_bool (up_idx w h x y = i0) + of_bool (down_idx w h x y = i0)"
  from nb have k: "0 < k" unfolding k_def
    by (auto simp: of_bool_def add_pos_nonneg add_nonneg_pos)
  have f: "gridSizeX ?s = w" "gridSizeY ?s = h" "diffusion ?s = 0.5" "dt ?s = 0.2"
    "length (uNext ?s) = w * h" "length (vNext ?s) = w * h" "perturbed rnd ?s = (u ?s, v ?s)"
    by (simp_all add: single_cell_field_def perturbed_def)
  from cell_index(1) [OF xy] have i: "y * w + x < w * h" by (simp add: mult.commute)
  note rd = single_cell_nth [OF i] single_cell_nth [OF neighbours_in_range(1) [OF xy]]
    single_cell_nth [OF neighbours_in_range(2) [OF xy]]
    single_cell_nth [OF neighbours_in_range(3) [OF xy]]
    single_cell_nth [OF neighbours_in_range(4) [OF xy]]
  have e: "euler_cell w h (diffusion ?s) (dt ?s) (u ?s) (v ?s) x y = (k * a / 10, k * b / 10)"
    unfolding f(3,4) using off by (simp add: euler_cell_def Let_def rd k_def of_bool_def)
  from update_cells [of ?s x y rnd, unfolded f fst_conv snd_conv, folded f(3,4), unfolded e] xy
  have "u (updatePhysics rnd ?s) ! (y * w + x) = k * a / 10"
    "v (updatePhysics rnd ?s) ! (y * w + x) = k * b / 10"
    by simp_all
  with k ab show ?thesis
    by (auto simp: psi_def update_fields f complex_eq_iff)
qed

text \<open>
  Claim C2. The solver's neighbour indices wrap: at \<open>x = 0\<close> the left neighbour is the cell
  at \<open>x = width - 1\<close> of the same row, at \<open>x = width - 1\<close> the right neighbour is the cell
  at \<open>x = 0\<close>, and likewise at \<open>y = 0\<close> and \<open>y = height - 1\<close>. So, on a grid at least two
  cells wide (high), a field that is zero except at one cell on an edge has, after one
  \<open>updatePhysics\<close>, a nonzero value at the cell across the edge in the same row (column).
\<close>

theorem C2_periodic_neighbours:
  fixes x y w h :: nat and a b :: real
  assumes "x < w" "y < h" "a \<noteq> 0 \<or> b \<noteq> 0"
  shows "left_idx w 0 y = y * w + (w - 1) \<and> right_idx w (w - 1) y = y * w + 0 \<and>
         up_idx w h x 0 = (h - 1) * w + x \<and> down_idx w h x (h - 1) = 0 * w + x \<and>
         (2 \<le> w \<longrightarrow>
            psi (updatePhysics rnd (single_cell_field w h (y * w + 0) a b)) (w - 1) y \<noteq> 0 \<and>
            psi (updatePhysics rnd (single_cell_field w h (y * w + (w - 1)) a b)) 0 y \<noteq> 0) \<and>
         (2 \<le> h \<longrightarrow>
            psi (updatePhysics rnd (single_cell_field w h (0 * w + x) a b)) x (h - 1) \<noteq> 0 \<and>
            psi (updatePhysics rnd (single_cell_field w h ((h - 1) * w + x) a b)) x 0 \<noteq> 0)"
proof -
  from assms have w: "0 < w" and h: "0 < h" by auto
  have l: "left_idx w 0 y = y * w + (w - 1)"
    using w by (simp add: left_idx_def)
  have r: "right_idx w (w - 1) y = y * w + 0"
    using w by (simp add: right_idx_def)
  have up: "up_idx w h x 0 = (h - 1) * w + x"
    using h by (simp add: up_idx_def)
  have dn: "down_idx w h x (h - 1) = 0 * w + x"
    using h by (simp add: down_idx_def)
  have wx: "psi (updatePhysics rnd (single_cell_field w h (y * w + 0) a b)) (w - 1) y \<noteq> 0 \<and>
            psi (updatePhysics rnd (single_cell_field w h (y * w + (w - 1)) a b)) 0 y \<noteq> 0"
    if "2 \<le> w"
  proof
    from that have "w - 1 < w" "y * w + (w - 1) \<noteq> y * w + 0" by simp_all
    from spread [OF this(1) assms(2) this(2) _ assms(3)] r
    show "psi (updatePhysics rnd (single_cell_field w h (y * w + 0) a b)) (w - 1) y \<noteq> 0"
      by simp
    from that have "0 < w" "y * w + 0 \<noteq> y * w + (w - 1)" by simp_all
    from spread [OF this(1) assms(2) this(2) _ assms(3)] l
    show "psi (updatePhysics rnd (single_cell_field w h (y * w + (w - 1)) a b)) 0 y \<noteq> 0"
      by simp
  qed
  have hy: "psi (updatePhysics rnd (single_cell_field w h (0 * w + x) a b)) x (h - 1) \<noteq> 0 \<and>
            psi (updatePhysics rnd (single_cell_field w h ((h - 1) * w + x) a b)) x 0 \<noteq> 0"
    if "2 \<le> h"
  proof
    from that w have "h - 1 < h" "(h - 1) * w + x \<noteq> 0 * w + x" by simp_all
    from spread [OF assms(1) this(1) this(2) _ assms(3)] dn
    show "psi (updatePhysics rnd (single_cell_field w h (0 * w + x) a b)) x (h - 1) \<noteq> 0"
      by simp
    from that w have "0 < h" "0 * w + x \<noteq> (h - 1) * w + x" by simp_all
    from spread [OF assms(1) this(1) this(2) _ assms(3)] up
    show "psi (updatePhysics rnd (single_cell_field w h ((h - 1) * w + x) a b)) x 0 \<noteq> 0"
      by simp
  qed
  from l r up dn wx hy show ?thesis by blast
qed

theorem C2_periodic_neighbours_witness:
  "(1::nat) < 4 \<and> (2::nat) < 4 \<and> (1::real) \<noteq> 0 \<and>
   left_idx 4 0 2 = 2 * 4 + (4 - 1) \<and> right_idx 4 (4 - 1) 2 = 2 * 4 + 0 \<and>
   up_idx 4 4 1 0 = (4 - 1) * 4 + 1 \<and> down_idx 4 4 1 (4 - 1) = 0 * 4 + 1 \<and>
   (2::nat) \<le> 4 \<and>
   psi (updatePhysics (\<lambda>k. 0) (single_cell_field 4 4 (2 * 4 + 0) 1 0)) (4 - 1) 2 \<noteq> 0 \<and>
   psi (updatePhysics (\<lambda>k. 0) (single_cell_field 4 4 (2 * 4 + (4 - 1)) 1 0)) 0 2 \<noteq> 0 \<and>
   psi (updatePhysics (\<lambda>k. 0) (single_cell_field 4 4 (0 * 4 + 1) 1 0)) 1 (4 - 1) \<noteq> 0 \<and>
   psi (updatePhysics (\<lambda>k. 0) (single_cell_field 4 4 ((4 - 1) * 4 + 1) 1 0)) 1 0 \<noteq> 0"
  using C2_periodic_neighbours [of 1 4 2 4 1 0 "\<lambda>k. 0"] by simp

text \<open>
  Claim C3. On the 4 by 4 grid with every cell at \<open>re = 1\<close>, \<open>im = 0\<close>, with
  \<open>diffusion = 0.5\<close>, \<open>dt = 0.2\<close> and \<open>noiseLevel = 0\<close>, one call of \<open>updatePhysics\<close>
  returns current arrays equal to the ones it started from.
\<close>

theorem C3_uniform_field_fixed_point:
  "u (updatePhysics rnd (uniform_field 4 4 1 0)) = u (uniform_field 4 4 1 0) \<and>
   v (updatePhysics rnd (uniform_field 4 4 1 0)) = v (uniform_field 4 4 1 0)"
  using update_uniform [of 1 0 rnd 4 4] by (simp add: uniform_field_def)

section \<open>The defect injector\<close>

subsection \<open>The magnitude factor\<close>

lemma dist_of_nonneg: "0 \<le> dist_of dx dy"
  by (simp add: dist_of_def)

lemma softProfile_lower: "0 \<le> d \<Longrightarrow> 0.2 \<le> softProfile d"
  by (simp add: softProfile_def Let_def min_def)

lemma softProfile_upper: "softProfile d \<le> 0.2 + 0.8 * tanh 1"
  by (simp add: softProfile_def Let_def min_def)

lemma tanh_exp: "tanh (x::real) = (exp (2 * x) - 1) / (exp (2 * x) + 1)"
proof -
  define e where "e = exp (2 * x)"
  have e: "0 < e" by (simp add: e_def)
  then have e1: "e + 1 \<noteq> 0" "1 + e \<noteq> 0" by simp_all
  have "tanh x = (1 - exp (- (2 * x))) / (1 + exp (- (2 * x)))"
    using tanh_real_altdef [of x] by simp
  also have "\<dots> = (1 - 1 / e) / (1 + 1 / e)"
    by (simp add: exp_minus e_def inverse_eq_divide)
  also have "\<dots> = ((e - 1) / e) / ((e + 1) / e)"
    using e by (simp add: diff_divide_distrib add_divide_distrib)
  also have "\<dots> = (e - 1) / (e + 1)"
    using e by simp
  finally show ?thesis by (simp add: e_def)
qed

lemma tanh_upper: "exp (2 * x) < (1 + c) / (1 - c) \<Longrightarrow> c < 1 \<Longrightarrow> tanh (x::real) < c"
  unfolding tanh_exp by (simp add: field_simps add_pos_pos)

lemma tanh_lower: "(1 + c) / (1 - c) < exp (2 * x) \<Longrightarrow> c < 1 \<Longrightarrow> c < tanh (x::real)"
  unfolding tanh_exp by (simp add: field_simps add_pos_pos)

lemma exp_small_upper:
  fixes x :: real
  assumes "0 \<le> x" "x < 1"
  shows "exp x \<le> 1 / (1 - x)"
proof -
  have "1 + (- x) \<le> exp (- x)"
    by (rule exp_ge_add_one_self)
  then have "1 - x \<le> 1 / exp x"
    by (simp add: exp_minus inverse_eq_divide)
  with assms show ?thesis
    by (simp add: field_simps)
qed

lemma tanh_1_bound: "tanh (1::real) < 0.77"
proof (rule tanh_upper)
  have "(2 * 1 :: real) = of_nat 64 * (1 / 32)" by simp
  also have "exp (of_nat 64 * (1 / 32 :: real)) = exp (1 / 32) ^ 64"
    by (rule exp_of_nat_mult)
  also have "\<dots> \<le> (1 / (1 - 1 / 32)) ^ 64"
    by (intro power_mono exp_small_upper) simp_all
  also have "\<dots> < (1 + 0.77) / (1 - 0.77 :: real)"
    by (simp add: power_divide)
  finally show "exp (2 * 1 :: real) < (1 + 0.77) / (1 - 0.77)" .
qed simp

lemma softProfile_lt_1: "softProfile d < 0.82"
  using softProfile_upper [of d] tanh_1_bound by simp

lemma profile_at_bounds:
  "0.2 \<le> profile_at w h x1 y1 x y" "profile_at w h x1 y1 x y \<le> 0.2 + 0.8 * tanh 1"
  "profile_at w h x1 y1 x y < 0.82"
  unfolding profile_at_def
  by (rule softProfile_lower, rule dist_of_nonneg, rule softProfile_upper, rule softProfile_lt_1)

lemma rotate_scale_mag:
  fixes a b c p :: real
  assumes "0 \<le> p"
  shows "sqrt (((a * cos c - b * sin c) * p) * ((a * cos c - b * sin c) * p)
             + ((a * sin c + b * cos c) * p) * ((a * sin c + b * cos c) * p))
         = p * sqrt (a * a + b * b)"
proof -
  have "((a * cos c - b * sin c) * p) * ((a * cos c - b * sin c) * p)
        + ((a * sin c + b * cos c) * p) * ((a * sin c + b * cos c) * p)
        = (p * p) * ((a * a + b * b) * (cos c * cos c + sin c * sin c))"
    by (simp only: algebra_simps)
  also have "\<dots> = (p * p) * (a * a + b * b)"
    by (simp only: sin_cos_squared_add3 mult_1_right)
  finally show ?thesis
    using assms by (simp add: real_sqrt_mult)
qed

lemma imprint_mag:
  fixes cx cy winding :: real
  assumes len: "length (u s) = gridSizeX s * gridSizeY s" "length (v s) = gridSizeX s * gridSizeY s"
    and xy: "x < gridSizeX s" "y < gridSizeY s"
  shows "mag_at (imprintSingleVortex cx cy winding s) (y * gridSizeX s + x) =
         profile_at (gridSizeX s) (gridSizeY s) (centre (gridSizeX s) cx) (centre (gridSizeY s) cy) x y
         * mag_at s (y * gridSizeX s + x)"
  unfolding mag_at_def Let_def imprint_cells [OF len xy]
  by (rule rotate_scale_mag) (rule order_trans [OF _ profile_at_bounds(1)], simp)

lemma centre_4_2: "centre 4 2 = 2"
  by (simp add: centre_def js_rem_def js_trunc_def)

lemma torus_4: "torus_delta 4 2 2 = 0" "torus_delta 4 0 2 = - 2"
  by (simp_all add: torus_delta_def Let_def)

lemma softProfile_0: "softProfile 0 = 0.2"
  by (simp add: softProfile_def)

lemma profile_centre: "profile_at 4 4 2 2 2 2 = 0.2"
  by (simp add: profile_at_def torus_4 dist_of_def softProfile_0)



subsection \<open>A cell away from the centre\<close>

lemma sqrt2_bounds: "1.414 < sqrt (2::real)" "sqrt (2::real) < 1.415"
  by (rule real_less_rsqrt, simp add: power2_eq_square)
     (rule real_less_lsqrt, simp_all add: power2_eq_square)

lemma exp_sqrt2_upper: "exp (sqrt 2) < (13 / 3 :: real)"
proof -
  have "exp (sqrt 2) < exp (1.415 :: real)"
    using sqrt2_bounds(2) by simp
  also have "(1.415 :: real) = of_nat 32 * (283 / 6400)" by simp
  also have "exp (of_nat 32 * (283 / 6400 :: real)) = exp (283 / 6400) ^ 32"
    by (rule exp_of_nat_mult)
  also have "\<dots> \<le> (1 / (1 - 283 / 6400)) ^ 32"
    by (intro power_mono exp_small_upper) simp_all
  also have "\<dots> < (13 / 3 :: real)"
    by (simp add: power_divide)
  finally show ?thesis .
qed

lemma exp_sqrt2_lower: "(4 :: real) < exp (sqrt 2)"
proof -
  have "(4 :: real) < (1 + 0.3535 + 0.3535\<^sup>2 / 2) ^ 4"
    by (simp add: power2_eq_square power4_eq_xxxx)
  also have "\<dots> \<le> exp (0.3535 :: real) ^ 4"
    by (intro power_mono exp_lower_Taylor_quadratic) simp_all
  also have "\<dots> = exp (of_nat 4 * (0.3535 :: real))"
    by (rule exp_of_nat_mult [symmetric])
  also have "of_nat 4 * (0.3535 :: real) = 1.414" by simp
  also have "exp (1.414 :: real) < exp (sqrt 2)"
    using sqrt2_bounds(1) by simp
  finally show ?thesis .
qed

lemma tanh_half_sqrt2: "0.6 < tanh (sqrt 2 / 2 :: real)" "tanh (sqrt 2 / 2 :: real) < 0.625"
proof -
  show "0.6 < tanh (sqrt 2 / 2 :: real)"
    by (rule tanh_lower) (use exp_sqrt2_lower in simp_all)
  show "tanh (sqrt 2 / 2 :: real) < 0.625"
    by (rule tanh_upper) (use exp_sqrt2_upper in simp_all)
qed

lemma profile_corner: "profile_at 4 4 2 2 0 0 = 0.2 + 0.8 * tanh (sqrt 2 / 2)"
proof -
  have "sqrt (8 :: real) = sqrt (2\<^sup>2 * 2)" by simp
  also have "\<dots> = 2 * sqrt 2" by (simp only: real_sqrt_mult) simp
  finally have s8: "sqrt (8 :: real) = 2 * sqrt 2" .
  have "sqrt 2 / 2 < (1 :: real)" using sqrt2_bounds(2) by simp
  then show ?thesis
    by (simp add: profile_at_def torus_4 dist_of_def softProfile_def s8 Let_def min_def)
qed

lemma uniform_mag: "i < w * h \<Longrightarrow> a * a + b * b = 1 \<Longrightarrow> mag_at (uniform_field w h a b) i = 1"
  by (simp add: mag_at_def uniform_field_def)

text \<open>
  Claim C4, as stated: on the 4 by 4 grid with every cell at magnitude 1, after
  \<open>imprintSingleVortex 2 2 1\<close> the cell \<open>(0, 0)\<close> keeps its magnitude within 5 percent.
  It does not: on the field of all \<open>1 + 0 i\<close> the magnitude of that cell changes by more
  than 5 percent.
\<close>

theorem C4_far_cell_counterexample:
  "\<not> \<bar>mag_at (imprintSingleVortex 2 2 1 (uniform_field 4 4 1 0)) (0 * 4 + 0)
       - mag_at (uniform_field 4 4 1 0) (0 * 4 + 0)\<bar>
     \<le> 0.05 * mag_at (uniform_field 4 4 1 0) (0 * 4 + 0)"
proof -
  have f: "gridSizeX (uniform_field 4 4 1 0) = 4" "gridSizeY (uniform_field 4 4 1 0) = 4"
    "length (u (uniform_field 4 4 1 0)) = 16" "length (v (uniform_field 4 4 1 0)) = 16"
    by (simp_all add: uniform_field_def)
  have m: "mag_at (uniform_field 4 4 1 0) (0 * 4 + 0) = 1"
    by (rule uniform_mag) simp_all
  from imprint_mag [of "uniform_field 4 4 1 0" 0 0 2 2 1] f
  have "mag_at (imprintSingleVortex 2 2 1 (uniform_field 4 4 1 0)) (0 * 4 + 0)
        = 0.2 + 0.8 * tanh (sqrt 2 / 2)"
    using m by (simp add: centre_4_2 profile_corner)
  with tanh_half_sqrt2(2) m show ?thesis by simp
qed

text \<open>
  Claim C4, amended. On a 4 by 4 grid, after \<open>imprintSingleVortex 2 2 1\<close> the cell
  \<open>(0, 0)\<close>, at distance \<open>sqrt 8\<close> from the centre, has \<open>0.2 + 0.8 * tanh (sqrt 2 / 2)\<close>
  times the magnitude it had, a factor between 0.68 and 0.7.
\<close>

theorem C4_far_cell_amended:
  assumes "gridSizeX s = 4" "gridSizeY s = 4" "length (u s) = 16" "length (v s) = 16"
  shows "mag_at (imprintSingleVortex 2 2 1 s) (0 * 4 + 0) =
           (0.2 + 0.8 * tanh (sqrt 2 / 2)) * mag_at s (0 * 4 + 0) \<and>
         0.68 < 0.2 + 0.8 * tanh (sqrt 2 / 2 :: real) \<and>
         0.2 + 0.8 * tanh (sqrt 2 / 2 :: real) < 0.7"
  using imprint_mag [of s 0 0 2 2 1] assms tanh_half_sqrt2
  by (simp add: centre_4_2 profile_corner)

theorem C4_far_cell_amended_witness:
  "gridSizeX (uniform_field 4 4 1 0) = 4 \<and> gridSizeY (uniform_field 4 4 1 0) = 4 \<and>
   length (u (uniform_field 4 4 1 0)) = 16 \<and> length (v (uniform_field 4 4 1 0)) = 16 \<and>
   mag_at (imprintSingleVortex 2 2 1 (uniform_field 4 4 1 0)) (0 * 4 + 0) =
           (0.2 + 0.8 * tanh (sqrt 2 / 2)) * mag_at (uniform_field 4 4 1 0) (0 * 4 + 0) \<and>
   0.68 < 0.2 + 0.8 * tanh (sqrt 2 / 2 :: real) \<and>
   0.2 + 0.8 * tanh (sqrt 2 / 2 :: real) < 0.7"
  using C4_far_cell_amended [of "uniform_field 4 4 1 0"] by (simp add: uniform_field_def)

subsection \<open>The centre cell, with the rounding of the store\<close>

text \<open>
  The rounding of the store moves a value by at most one part in \<open>2 ^ 24\<close>, or by
  \<open>2 ^ -150\<close> among the subnormal numbers; 0.2 itself is stored as
  \<open>13421773 / 2 ^ 26\<close>, a little above 0.2.
\<close>

lemma round_even_err: "\<bar>of_int (round_even r) - r\<bar> \<le> 1 / 2"
proof -
  have "of_int \<lfloor>r\<rfloor> \<le> r" "r < of_int \<lfloor>r\<rfloor> + 1" by linarith+
  then show ?thesis
    by (auto simp: round_even_def Let_def)
qed

lemma fround_0: "fround 0 = 0"
  by (simp add: fround_def)

lemma fround_err: "\<bar>fround x - x\<bar> \<le> \<bar>x\<bar> / 2 ^ 24 + 1 / 2 ^ 150"
proof (cases "x = 0")
  case True
  then show ?thesis by (simp add: fround_def)
next
  case False
  define e where "e = max (- 126) \<lfloor>log 2 \<bar>x\<bar>\<rfloor>"
  define q :: real where "q = 2 powr (of_int e - 23)"
  have q: "0 < q" by (simp add: q_def)
  have fr: "fround x = q * of_int (round_even (x / q))"
    using False by (simp add: fround_def Let_def e_def q_def)
  have "\<bar>fround x - x\<bar> = q * \<bar>of_int (round_even (x / q)) - x / q\<bar>"
  proof -
    have "fround x - x = q * (of_int (round_even (x / q)) - x / q)"
      using q by (simp add: fr right_diff_distrib)
    then show ?thesis using q by (simp add: abs_mult)
  qed
  also have "\<dots> \<le> q * (1 / 2)"
    using q round_even_err [of "x / q"] by (intro mult_left_mono) simp_all
  also have "\<dots> = 2 powr (of_int e - 24)"
  proof -
    have "of_int e - 23 = (of_int e - 24) + (1::real)" by simp
    then have "(2::real) powr (of_int e - 23) = 2 powr (of_int e - 24) * 2 powr 1"
      by (simp only: powr_add)
    then show ?thesis by (simp add: q_def)
  qed
  also have "\<dots> \<le> \<bar>x\<bar> / 2 ^ 24 + 1 / 2 ^ 150"
  proof (cases "- 126 \<le> \<lfloor>log 2 \<bar>x\<bar>\<rfloor>")
    case True
    then have e: "e = \<lfloor>log 2 \<bar>x\<bar>\<rfloor>" by (simp add: e_def)
    have "of_int e \<le> log 2 \<bar>x\<bar>" unfolding e by simp
    then have "2 powr of_int e \<le> \<bar>x\<bar>"
      using False by (simp add: le_log_iff)
    moreover have "(2::real) powr (of_int e - 24) = 2 powr of_int e / 2 ^ 24"
      by (simp add: powr_diff)
    ultimately have "(2::real) powr (of_int e - 24) \<le> \<bar>x\<bar> / 2 ^ 24"
      by (simp add: divide_right_mono)
    then show ?thesis by simp
  next
    case False
    then have e: "e = - 126" by (simp add: e_def)
    have "(2::real) powr (of_int e - 24) = 2 powr (- 150)" by (simp add: e)
    also have "\<dots> = 1 / 2 ^ 150"
      by (simp add: powr_minus_divide)
    finally show ?thesis by simp
  qed
  finally show ?thesis .
qed

lemma fround_fifth: "fround (1 / 5) = 13421773 / 67108864"
proof -
  have "\<lfloor>log 2 \<bar>1 / 5 :: real\<bar>\<rfloor> = - 3"
    by (subst floor_log_eq_powr_iff) (simp_all add: powr_minus_divide)
  then have e: "max (- 126) \<lfloor>log 2 \<bar>1 / 5 :: real\<bar>\<rfloor> = - 3" by simp
  have q: "(2::real) powr (of_int (- 3) - 23) = 1 / 67108864"
    by (simp add: powr_minus_divide)
  have r: "round_even (13421772.8) = 13421773"
    by (simp add: round_even_def Let_def)
  show ?thesis
    unfolding fround_def Let_def e q using r by simp
qed

text \<open>
  Cell by cell, the pass with rounded stores holds the rounding of what the exact pass
  holds.
\<close>

lemma imprint_cell_f32_form:
  "imprint_cell_f32 w h x1 y1 winding x y (A, B) =
     (A[y * w + x := fround ((A ! (y * w + x) * cos (deltaPhase_at w h x1 y1 winding x y)
                      - B ! (y * w + x) * sin (deltaPhase_at w h x1 y1 winding x y))
                     * profile_at w h x1 y1 x y)],
      B[y * w + x := fround ((A ! (y * w + x) * sin (deltaPhase_at w h x1 y1 winding x y)
                      + B ! (y * w + x) * cos (deltaPhase_at w h x1 y1 winding x y))
                     * profile_at w h x1 y1 x y)])"
  by (simp add: imprint_cell_f32_def deltaPhase_at_def profile_at_def Let_def)

lemma imprint_f32_arrays:
  "u (imprintSingleVortex_f32 cx cy winding s) =
     fst (for_grid (gridSizeX s) (gridSizeY s)
       (imprint_cell_f32 (gridSizeX s) (gridSizeY s) (centre (gridSizeX s) cx) (centre (gridSizeY s) cy) winding)
       (u s, v s))"
  "v (imprintSingleVortex_f32 cx cy winding s) =
     snd (for_grid (gridSizeX s) (gridSizeY s)
       (imprint_cell_f32 (gridSizeX s) (gridSizeY s) (centre (gridSizeX s) cx) (centre (gridSizeY s) cy) winding)
       (u s, v s))"
  by (simp_all add: imprintSingleVortex_f32_def centre_def Let_def split: prod.split)

lemma imprint_f32_cells:
  fixes cx cy winding :: real
  assumes len: "length (u s) = gridSizeX s * gridSizeY s" "length (v s) = gridSizeX s * gridSizeY s"
    and xy: "x < gridSizeX s" "y < gridSizeY s"
  defines "i \<equiv> y * gridSizeX s + x"
  defines "d \<equiv> deltaPhase_at (gridSizeX s) (gridSizeY s)
      (centre (gridSizeX s) cx) (centre (gridSizeY s) cy) winding x y"
  defines "p \<equiv> profile_at (gridSizeX s) (gridSizeY s)
      (centre (gridSizeX s) cx) (centre (gridSizeY s) cy) x y"
  shows "u (imprintSingleVortex_f32 cx cy winding s) ! i = fround ((u s ! i * cos d - v s ! i * sin d) * p)"
    and "v (imprintSingleVortex_f32 cx cy winding s) ! i = fround ((u s ! i * sin d + v s ! i * cos d) * p)"
proof -
  note idx = cell_index [OF xy]
  from idx(1) len have i: "i < length (u s)" "i < length (v s)"
    by (simp_all add: i_def mult.commute)
  note g = grid_loop [where body = "imprint_cell_f32 (gridSizeX s) (gridSizeY s)
        (centre (gridSizeX s) cx) (centre (gridSizeY s) cy) winding"
      and w = "gridSizeX s" and m = "gridSizeY s" and A = "u s" and B = "v s"
      and fa = "\<lambda>x y a b. fround ((a * cos (deltaPhase_at (gridSizeX s) (gridSizeY s)
            (centre (gridSizeX s) cx) (centre (gridSizeY s) cy) winding x y)
          - b * sin (deltaPhase_at (gridSizeX s) (gridSizeY s)
            (centre (gridSizeX s) cx) (centre (gridSizeY s) cy) winding x y))
          * profile_at (gridSizeX s) (gridSizeY s) (centre (gridSizeX s) cx) (centre (gridSizeY s) cy) x y)"
      and fb = "\<lambda>x y a b. fround ((a * sin (deltaPhase_at (gridSizeX s) (gridSizeY s)
            (centre (gridSizeX s) cx) (centre (gridSizeY s) cy) winding x y)
          + b * cos (deltaPhase_at (gridSizeX s) (gridSizeY s)
            (centre (gridSizeX s) cx) (centre (gridSizeY s) cy) winding x y))
          * profile_at (gridSizeX s) (gridSizeY s) (centre (gridSizeX s) cx) (centre (gridSizeY s) cy) x y)",
      OF imprint_cell_f32_form, THEN conjunct2, THEN conjunct2, rule_format, OF i]
  from g [THEN conjunct1] idx
  show "u (imprintSingleVortex_f32 cx cy winding s) ! i = fround ((u s ! i * cos d - v s ! i * sin d) * p)"
    unfolding imprint_f32_arrays by (simp add: i_def d_def p_def)
  from g [THEN conjunct2] idx
  show "v (imprintSingleVortex_f32 cx cy winding s) ! i = fround ((u s ! i * sin d + v s ! i * cos d) * p)"
    unfolding imprint_f32_arrays by (simp add: i_def d_def p_def)
qed

lemma imprint_f32_rounds_exact:
  fixes cx cy winding :: real
  assumes "length (u s) = gridSizeX s * gridSizeY s" "length (v s) = gridSizeX s * gridSizeY s"
    and "x < gridSizeX s" "y < gridSizeY s"
  shows "u (imprintSingleVortex_f32 cx cy winding s) ! (y * gridSizeX s + x)
           = fround (u (imprintSingleVortex cx cy winding s) ! (y * gridSizeX s + x))"
    and "v (imprintSingleVortex_f32 cx cy winding s) ! (y * gridSizeX s + x)
           = fround (v (imprintSingleVortex cx cy winding s) ! (y * gridSizeX s + x))"
  by (simp_all only: imprint_f32_cells [OF assms] imprint_cells [OF assms])

lemma deltaPhase_centre: "deltaPhase_at 4 4 2 2 1 2 2 = 0"
  by (simp add: deltaPhase_at_def torus_4 atan2_def)

lemma centre_cell_f32:
  assumes "gridSizeX s = 4" "gridSizeY s = 4" "length (u s) = 16" "length (v s) = 16"
  shows "u (imprintSingleVortex_f32 2 2 1 s) ! (2 * 4 + 2) = fround (u s ! (2 * 4 + 2) * 0.2)"
    and "v (imprintSingleVortex_f32 2 2 1 s) ! (2 * 4 + 2) = fround (v s ! (2 * 4 + 2) * 0.2)"
  using imprint_f32_cells [of s 2 2 2 2 1] assms
  by (simp_all add: centre_4_2 profile_centre deltaPhase_centre)

lemma sqrt_sum_squares_mono:
  fixes a b c d :: real
  assumes "\<bar>a\<bar> \<le> c" "\<bar>b\<bar> \<le> d"
  shows "sqrt (a * a + b * b) \<le> sqrt (c * c + d * d)"
proof -
  from assms have "\<bar>a\<bar> * \<bar>a\<bar> \<le> c * c" "\<bar>b\<bar> * \<bar>b\<bar> \<le> d * d"
    by (intro mult_mono; simp)+
  then have "a * a \<le> c * c" "b * b \<le> d * d"
    by simp_all
  then show ?thesis by (intro real_sqrt_le_mono add_mono)
qed

lemma rounded_pair_norm:
  fixes a b a' b' :: real
  assumes "\<bar>a' - a\<bar> \<le> \<bar>a\<bar> / 2 ^ 24 + 1 / 2 ^ 150" "\<bar>b' - b\<bar> \<le> \<bar>b\<bar> / 2 ^ 24 + 1 / 2 ^ 150"
  shows "sqrt (a' * a' + b' * b') \<le> (1 + 1 / 2 ^ 24) * sqrt (a * a + b * b) + 1 / 2 ^ 149"
proof -
  define eta :: real where "eta = 1 / 2 ^ 150"
  have eta: "0 \<le> eta" by (simp add: eta_def)
  have n: "cmod (Complex x y) = sqrt (x * x + y * y)" for x y
    by (simp add: cmod_def power2_eq_square)
  have "Complex a' b' = Complex a b + Complex (a' - a) (b' - b)"
    by (simp add: complex_eq_iff)
  then have "cmod (Complex a' b') = cmod (Complex a b + Complex (a' - a) (b' - b))"
    by simp
  also have "\<dots> \<le> cmod (Complex a b) + cmod (Complex (a' - a) (b' - b))"
    by (rule norm_triangle_ineq)
  also have "cmod (Complex (a' - a) (b' - b)) \<le> cmod (Complex (\<bar>a\<bar> / 2 ^ 24 + eta) (\<bar>b\<bar> / 2 ^ 24 + eta))"
    unfolding n using assms by (intro sqrt_sum_squares_mono) (simp_all add: eta_def)
  also have "Complex (\<bar>a\<bar> / 2 ^ 24 + eta) (\<bar>b\<bar> / 2 ^ 24 + eta)
      = Complex (\<bar>a\<bar> / 2 ^ 24) (\<bar>b\<bar> / 2 ^ 24) + Complex eta eta"
    by (simp add: complex_eq_iff)
  also have "cmod \<dots> \<le> cmod (Complex (\<bar>a\<bar> / 2 ^ 24) (\<bar>b\<bar> / 2 ^ 24)) + cmod (Complex eta eta)"
    by (rule norm_triangle_ineq)
  also have "cmod (Complex (\<bar>a\<bar> / 2 ^ 24) (\<bar>b\<bar> / 2 ^ 24)) = cmod (Complex a b) / 2 ^ 24"
  proof -
    have "Complex (\<bar>a\<bar> / 2 ^ 24) (\<bar>b\<bar> / 2 ^ 24) = Complex \<bar>a\<bar> \<bar>b\<bar> / of_real (2 ^ 24)"
      by (simp add: complex_eq_iff)
    moreover have "cmod (Complex \<bar>a\<bar> \<bar>b\<bar>) = cmod (Complex a b)"
      by (simp add: cmod_def)
    ultimately show ?thesis
      by (simp add: norm_divide del: of_real_power of_real_numeral)
  qed
  also have "cmod (Complex eta eta) \<le> 2 * eta"
  proof -
    have "cmod (Complex eta eta) \<le> \<bar>eta\<bar> + \<bar>eta\<bar>"
      using cmod_le [of "Complex eta eta"] by simp
    with eta show ?thesis by simp
  qed
  finally have "cmod (Complex a' b') \<le> cmod (Complex a b) + (cmod (Complex a b) / 2 ^ 24 + 2 * eta)"
    by simp
  then show ?thesis
    unfolding n by (simp add: eta_def algebra_simps)
qed

text \<open>
  Claim C5, as stated: on a 4 by 4 grid, after \<open>imprintSingleVortex 2 2 1\<close> the cell
  \<open>(2, 2)\<close> has at most 0.2 times the magnitude it had. With the store rounded to single
  precision it has not: on the field of all \<open>1 + 0 i\<close> the cell ends at
  \<open>13421773 / 67108864\<close>, about 0.20000000298, which is more than 0.2 times 1.
\<close>

theorem C5_core_suppression_counterexample:
  "u (imprintSingleVortex_f32 2 2 1 (uniform_field 4 4 1 0)) ! (2 * 4 + 2) = 13421773 / 67108864 \<and>
   v (imprintSingleVortex_f32 2 2 1 (uniform_field 4 4 1 0)) ! (2 * 4 + 2) = 0 \<and>
   \<not> mag_at (imprintSingleVortex_f32 2 2 1 (uniform_field 4 4 1 0)) (2 * 4 + 2)
       \<le> 0.2 * mag_at (uniform_field 4 4 1 0) (2 * 4 + 2)"
proof -
  have f: "gridSizeX (uniform_field 4 4 1 0) = 4" "gridSizeY (uniform_field 4 4 1 0) = 4"
    "length (u (uniform_field 4 4 1 0)) = 16" "length (v (uniform_field 4 4 1 0)) = 16"
    by (simp_all add: uniform_field_def)
  have m: "mag_at (uniform_field 4 4 1 0) (2 * 4 + 2) = 1"
    by (rule uniform_mag) simp_all
  have "u (uniform_field 4 4 1 0) ! (2 * 4 + 2) * 0.2 = 1 / 5"
    "v (uniform_field 4 4 1 0) ! (2 * 4 + 2) * 0.2 = 0"
    by (simp_all add: uniform_field_def)
  with centre_cell_f32 [OF f]
  have c: "u (imprintSingleVortex_f32 2 2 1 (uniform_field 4 4 1 0)) ! (2 * 4 + 2) = 13421773 / 67108864"
    "v (imprintSingleVortex_f32 2 2 1 (uniform_field 4 4 1 0)) ! (2 * 4 + 2) = 0"
    by (simp_all only: fround_fifth fround_0)
  have "mag_at (imprintSingleVortex_f32 2 2 1 (uniform_field 4 4 1 0)) (2 * 4 + 2) = 13421773 / 67108864"
    unfolding mag_at_def Let_def c by (simp flip: power2_eq_square)
  with c m show ?thesis by simp
qed

text \<open>
  Claim C5, amended. On a 4 by 4 grid, after \<open>imprintSingleVortex 2 2 1\<close> the cell
  \<open>(2, 2)\<close> holds the single-precision roundings of 0.2 times its former real and imaginary
  parts; its magnitude is at most \<open>0.2 * (1 + 2 ^ -23)\<close> times the former magnitude plus
  \<open>2 ^ -149\<close>.
\<close>

theorem C5_core_suppression_amended:
  assumes "gridSizeX s = 4" "gridSizeY s = 4" "length (u s) = 16" "length (v s) = 16"
  shows "u (imprintSingleVortex_f32 2 2 1 s) ! (2 * 4 + 2) = fround (u s ! (2 * 4 + 2) * 0.2) \<and>
         v (imprintSingleVortex_f32 2 2 1 s) ! (2 * 4 + 2) = fround (v s ! (2 * 4 + 2) * 0.2) \<and>
         mag_at (imprintSingleVortex_f32 2 2 1 s) (2 * 4 + 2)
           \<le> 0.2 * (1 + 1 / 2 ^ 23) * mag_at s (2 * 4 + 2) + 1 / 2 ^ 149"
proof -
  let ?i = "2 * 4 + 2 :: nat"
  define a b where "a = u s ! ?i * 0.2" and "b = v s ! ?i * 0.2"
  note c = centre_cell_f32 [OF assms, folded a_def b_def]
  have sq: "sqrt (a * a + b * b) = 0.2 * mag_at s ?i"
  proof -
    have "a * a + b * b = 0.2\<^sup>2 * (u s ! ?i * u s ! ?i + v s ! ?i * v s ! ?i)"
      by (simp add: a_def b_def power2_eq_square algebra_simps)
    then show ?thesis
      by (simp only: real_sqrt_mult real_sqrt_abs mag_at_def Let_def)
  qed
  have nn: "0 \<le> mag_at s ?i" by (simp add: mag_at_def)
  have "mag_at (imprintSingleVortex_f32 2 2 1 s) ?i
        = sqrt (fround a * fround a + fround b * fround b)"
    unfolding mag_at_def [of "imprintSingleVortex_f32 2 2 1 s"] Let_def c ..
  also have "\<dots> \<le> (1 + 1 / 2 ^ 24) * sqrt (a * a + b * b) + 1 / 2 ^ 149"
    by (rule rounded_pair_norm) (rule fround_err)+
  also have "\<dots> = (1 + 1 / 2 ^ 24) * (0.2 * mag_at s ?i) + 1 / 2 ^ 149"
    by (simp only: sq)
  also have "\<dots> \<le> 0.2 * (1 + 1 / 2 ^ 23) * mag_at s ?i + 1 / 2 ^ 149"
  proof (rule add_right_mono)
    have "(1 + 1 / 2 ^ 24) * (0.2 * mag_at s ?i) = (0.2 * (1 + 1 / 2 ^ 24)) * mag_at s ?i"
      by (simp only: mult.assoc mult.left_commute)
    also have "\<dots> \<le> (0.2 * (1 + 1 / 2 ^ 23)) * mag_at s ?i"
      using nn by (intro mult_right_mono) simp_all
    finally show "(1 + 1 / 2 ^ 24) * (0.2 * mag_at s ?i) \<le> 0.2 * (1 + 1 / 2 ^ 23) * mag_at s ?i" .
  qed
  finally have "mag_at (imprintSingleVortex_f32 2 2 1 s) ?i
      \<le> 0.2 * (1 + 1 / 2 ^ 23) * mag_at s ?i + 1 / 2 ^ 149" .
  with c show ?thesis
    by (simp add: a_def b_def)
qed

theorem C5_core_suppression_amended_witness:
  "gridSizeX (uniform_field 4 4 1 0) = 4 \<and> gridSizeY (uniform_field 4 4 1 0) = 4 \<and>
   length (u (uniform_field 4 4 1 0)) = 16 \<and> length (v (uniform_field 4 4 1 0)) = 16 \<and>
   u (imprintSingleVortex_f32 2 2 1 (uniform_field 4 4 1 0)) ! (2 * 4 + 2)
     = fround (u (uniform_field 4 4 1 0) ! (2 * 4 + 2) * 0.2) \<and>
   v (imprintSingleVortex_f32 2 2 1 (uniform_field 4 4 1 0)) ! (2 * 4 + 2)
     = fround (v (uniform_field 4 4 1 0) ! (2 * 4 + 2) * 0.2) \<and>
   mag_at (imprintSingleVortex_f32 2 2 1 (uniform_field 4 4 1 0)) (2 * 4 + 2)
     \<le> 0.2 * (1 + 1 / 2 ^ 23) * mag_at (uniform_field 4 4 1 0) (2 * 4 + 2) + 1 / 2 ^ 149"
proof -
  have f: "gridSizeX (uniform_field 4 4 1 0) = 4" "gridSizeY (uniform_field 4 4 1 0) = 4"
    "length (u (uniform_field 4 4 1 0)) = 16" "length (v (uniform_field 4 4 1 0)) = 16"
    by (simp_all add: uniform_field_def)
  from C5_core_suppression_amended [OF f] f show ?thesis by blast
qed

subsection \<open>A vortex and then an anti-vortex at the same place\<close>








subsection \<open>Centres outside the grid\<close>

text \<open>
  From \<open>cx = -w\<close> upwards the sum \<open>cx + w\<close> is not negative, \<open>%\<close> takes it into
  \<open>[0, w)\<close>, and centres that differ by whole grid widths and heights give the same field.
\<close>

lemma centre_shift:
  assumes "0 \<le> cx + real w" "0 \<le> cx + of_int k * real w + real w"
  shows "centre w (cx + of_int k * real w) = centre w cx"
proof (cases "w = 0")
  case True
  then show ?thesis by simp
next
  case False
  then have w: "0 < real w" by simp
  have q: "(cx + of_int k * real w + real w) / real w = (cx + real w) / real w + of_int k"
    using w by (simp add: field_simps)
  from assms w have nn: "0 \<le> (cx + real w) / real w" "0 \<le> (cx + of_int k * real w + real w) / real w"
    by simp_all
  have "js_trunc ((cx + of_int k * real w + real w) / real w) = js_trunc ((cx + real w) / real w) + k"
    using nn unfolding js_trunc_def by (simp add: q)
  then show ?thesis
    by (simp add: centre_def js_rem_def algebra_simps)
qed

lemma imprint_centre:
  "imprintSingleVortex cx cy winding s =
     (let (U, V) = for_grid (gridSizeX s) (gridSizeY s)
        (imprint_cell (gridSizeX s) (gridSizeY s) (centre (gridSizeX s) cx) (centre (gridSizeY s) cy) winding)
        (u s, v s)
      in s\<lparr>u := U, v := V\<rparr>)"
  by (simp add: imprintSingleVortex_def centre_def Let_def)

lemma imprint_shift_from_minus_size:
  assumes "- real (gridSizeX s) \<le> cx" "- real (gridSizeX s) \<le> cx + of_int k * real (gridSizeX s)"
    and "- real (gridSizeY s) \<le> cy" "- real (gridSizeY s) \<le> cy + of_int m * real (gridSizeY s)"
  shows "imprintSingleVortex (cx + of_int k * real (gridSizeX s)) (cy + of_int m * real (gridSizeY s)) winding s
         = imprintSingleVortex cx cy winding s"
proof -
  have "centre (gridSizeX s) (cx + of_int k * real (gridSizeX s)) = centre (gridSizeX s) cx"
    using assms(1,2) by (intro centre_shift) simp_all
  moreover have "centre (gridSizeY s) (cy + of_int m * real (gridSizeY s)) = centre (gridSizeY s) cy"
    using assms(3,4) by (intro centre_shift) simp_all
  ultimately show ?thesis
    by (simp add: imprint_centre)
qed

text \<open>
  Claim C7 says that a centre moved by whole grid widths gives the same field. The code
  wraps the centre with \<open>(cx + w) % w\<close>, which lands in the grid only from \<open>cx = -w\<close>
  upwards. On the 4 by 4 field of all \<open>1 + 0 i\<close>, the centres \<open>-7.5\<close> and
  \<open>-7.5 + 2 * 4 = 0.5\<close> give different values at cell \<open>(3, 0)\<close>: the first is computed
  from a displacement of 2.5 cells, the second from the shortest one, -1.5 cells.
\<close>

theorem C7_centre_below_minus_width:
  "u (imprintSingleVortex (- 7.5) 0 1 (uniform_field 4 4 1 0)) ! (0 * 4 + 3) = softProfile 2.5 \<and>
   u (imprintSingleVortex (- 7.5 + 2 * 4) 0 1 (uniform_field 4 4 1 0)) ! (0 * 4 + 3) = - softProfile 1.5 \<and>
   imprintSingleVortex (- 7.5 + 2 * 4) 0 1 (uniform_field 4 4 1 0)
     \<noteq> imprintSingleVortex (- 7.5) 0 1 (uniform_field 4 4 1 0)"
proof -
  let ?s = "uniform_field 4 4 1 0"
  have f: "gridSizeX ?s = 4" "gridSizeY ?s = 4" "length (u ?s) = 16" "length (v ?s) = 16"
    "u ?s ! 3 = 1" "v ?s ! 3 = 0"
    by (simp_all add: uniform_field_def)
  have d1: "dist_of (5 / 2) 0 = 5 / 2" "dist_of (- (3 / 2)) 0 = 3 / 2"
    by (simp_all add: dist_of_def real_sqrt_divide flip: power2_eq_square)
  from imprint_cells(1) [of ?s 3 0 "- 7.5" 0 1] f
  have a: "u (imprintSingleVortex (- 7.5) 0 1 ?s) ! (0 * 4 + 3) = softProfile 2.5"
    by (simp add: centre_def js_rem_def js_trunc_def torus_delta_def Let_def
        deltaPhase_at_def profile_at_def atan2_def d1)
  from imprint_cells(1) [of ?s 3 0 "- 7.5 + 2 * 4" 0 1] f
  have b: "u (imprintSingleVortex (- 7.5 + 2 * 4) 0 1 ?s) ! (0 * 4 + 3) = - softProfile 1.5"
    by (simp add: centre_def js_rem_def js_trunc_def torus_delta_def Let_def
        deltaPhase_at_def profile_at_def atan2_def d1)
  have "0.2 \<le> softProfile 2.5" "0.2 \<le> softProfile 1.5"
    by (rule softProfile_lower, simp)+
  with a b have "u (imprintSingleVortex (- 7.5 + 2 * 4) 0 1 ?s) ! (0 * 4 + 3)
      \<noteq> u (imprintSingleVortex (- 7.5) 0 1 ?s) ! (0 * 4 + 3)"
    by simp
  then have "imprintSingleVortex (- 7.5 + 2 * 4) 0 1 ?s \<noteq> imprintSingleVortex (- 7.5) 0 1 ?s"
    by (rule contrapos_nn) (simp only:)
  with a b show ?thesis by blast
qed

section \<open>The hue of a phase\<close>

lemma atan2_negative_axis: "x < 0 \<Longrightarrow> atan2 0 x = pi"
  by (simp add: atan2_def)

text \<open>
  Claim C8. The hue mapping of \<open>draw\<close>, \<open>(angle * 180 / pi + 360) % 360\<close>, gives the
  phases \<open>-pi\<close> and \<open>pi\<close> the same hue, 180.
\<close>

theorem C8_hue_wraps: "hue_of_angle (- pi) = hue_of_angle pi \<and> hue_of_angle pi = 180"
  by (simp add: hue_of_angle_def js_rem_def js_trunc_def)

section \<open>The shape of the buffers\<close>

lemma seed_fold_length:
  "length (fst (fold (seed_cell rnd) is (A, B))) = length A \<and>
   length (snd (fold (seed_cell rnd) is (A, B))) = length B"
  by (induction "is" arbitrary: A B) (simp_all add: seed_cell_def Let_def)

lemma initializeGrid_shape: "shape_ok s \<Longrightarrow> shape_ok (initializeGrid rnd s)"
  using seed_fold_length [of rnd "[0..<length (u s)]" "u s" "v s"]
  by (simp add: initializeGrid_def shape_ok_def case_prod_beta)

lemma initializeGrid_grid:
  "gridSizeX (initializeGrid rnd s) = gridSizeX s" "gridSizeY (initializeGrid rnd s) = gridSizeY s"
  by (simp_all add: initializeGrid_def case_prod_beta)

lemma setupCanvas_shape: "shape_ok (setupCanvas (Some (cw, ch)) t rnd s)"
  by (simp add: setupCanvas_def Let_def, rule initializeGrid_shape) (simp add: shape_ok_def)

lemma setupCanvas_grid:
  "gridSizeX (setupCanvas (Some (cw, ch)) t rnd s) = nat \<lceil>real cw / max 2 t\<rceil>"
  "gridSizeY (setupCanvas (Some (cw, ch)) t rnd s) = nat \<lceil>real ch / max 2 t\<rceil>"
  by (simp_all add: setupCanvas_def Let_def initializeGrid_grid)

lemma updatePhysics_shape: "shape_ok s \<Longrightarrow> shape_ok (updatePhysics rnd s)"
  by (simp add: shape_ok_def update_fields update_length perturbed_length)

lemma imprint_shape: "shape_ok s \<Longrightarrow> shape_ok (imprintSingleVortex cx cy winding s)"
  by (simp add: shape_ok_def imprint_fields imprint_length)

lemma perform_shape: "shape_ok s \<Longrightarrow> shape_ok (perform c s)"
  by (cases c) (simp_all add: updatePhysics_shape imprint_shape)

lemma perform_grid:
  "gridSizeX (perform c s) = gridSizeX s" "gridSizeY (perform c s) = gridSizeY s"
  by (cases c; simp add: update_fields imprint_fields)+

lemma run_shape:
  "shape_ok s \<Longrightarrow> shape_ok (run calls s) \<and> gridSizeX (run calls s) = gridSizeX s \<and>
     gridSizeY (run calls s) = gridSizeY s"
  unfolding run_def
  by (induction calls arbitrary: s) (simp_all add: perform_shape perform_grid)

text \<open>
  Claim C9. After \<open>setupCanvas\<close> has allocated the arrays for a container, the four
  arrays have \<open>gridSizeX * gridSizeY\<close> cells each, and they still have after any sequence
  of \<open>updatePhysics\<close> and \<open>imprintSingleVortex\<close> calls, which leave the grid sizes alone.
\<close>

theorem C9_buffer_shape:
  "length (u (setupCanvas (Some (cw, ch)) t rnd s)) =
     gridSizeX (setupCanvas (Some (cw, ch)) t rnd s) * gridSizeY (setupCanvas (Some (cw, ch)) t rnd s) \<and>
   shape_ok (setupCanvas (Some (cw, ch)) t rnd s) \<and>
   shape_ok (run calls (setupCanvas (Some (cw, ch)) t rnd s)) \<and>
   gridSizeX (run calls (setupCanvas (Some (cw, ch)) t rnd s)) = gridSizeX (setupCanvas (Some (cw, ch)) t rnd s) \<and>
   gridSizeY (run calls (setupCanvas (Some (cw, ch)) t rnd s)) = gridSizeY (setupCanvas (Some (cw, ch)) t rnd s)"
  using setupCanvas_shape [of cw ch t rnd s] run_shape [OF setupCanvas_shape, of calls cw ch t rnd s]
  by (simp add: shape_ok_def)

end
